theory Spec2Isabelle
  imports Complex_Main "HOL-Library.Word" "HOL-Library.List_Lexorder" "HOL-Library.Log_Nat"
    "HOL-Library.Multiset"
begin

unbundle bit_operations_syntax

section \<open>Byte strings and the SHA-1 digest\<close>

text \<open>
  A Go \<^verbatim>\<open>[]byte\<close> is a list of 8-bit words. A nil slice and an empty slice are both
  \<open>[]\<close>: the program only ever takes their length and compares them with
  \<^verbatim>\<open>bytes.Compare\<close>, which treats the two alike. \<^verbatim>\<open>bytes.Compare\<close> is the
  lexicographic order on unsigned bytes with a proper prefix smaller, which is the order
  the theory List_Lexorder puts on \<open>8 word list\<close>.

  \<^verbatim>\<open>sha1.Sum\<close> of Go's standard library is SHA-1 (FIPS 180-4): pad the message to a
  multiple of 64 bytes, run 80 rounds per block, emit the five state words big-endian.
\<close>

type_synonym byte = "8 word"
type_synonym bytes = "byte list"

definition be32 :: "byte \<Rightarrow> byte \<Rightarrow> byte \<Rightarrow> byte \<Rightarrow> 32 word" where
  "be32 a b c d = push_bit 24 (ucast a) OR push_bit 16 (ucast b) OR push_bit 8 (ucast c) OR ucast d"

fun words_of :: "bytes \<Rightarrow> 32 word list" where
  "words_of (a # b # c # d # rest) = be32 a b c d # words_of rest"
| "words_of _ = []"

definition bytes_of :: "32 word \<Rightarrow> bytes" where
  "bytes_of w = [ucast (drop_bit 24 w), ucast (drop_bit 16 w), ucast (drop_bit 8 w), ucast w]"

definition be64 :: "64 word \<Rightarrow> bytes" where
  "be64 w = map (\<lambda>i. ucast (drop_bit (8 * i) w)) [7, 6, 5, 4, 3, 2, 1, 0]"

definition sha1_pad :: "bytes \<Rightarrow> bytes" where
  "sha1_pad m =
     m @ [0x80] @ replicate ((119 - length m mod 64) mod 64) 0 @
     be64 (of_nat (8 * length m))"

fun sha1_schedule :: "nat \<Rightarrow> 32 word list \<Rightarrow> 32 word list" where
  "sha1_schedule 0 w = w"
| "sha1_schedule (Suc n) w =
     (let t = length w
      in sha1_schedule n
           (w @ [word_rotl 1 (w ! (t - 3) XOR w ! (t - 8) XOR w ! (t - 14) XOR w ! (t - 16))]))"

definition sha1_f :: "nat \<Rightarrow> 32 word \<Rightarrow> 32 word \<Rightarrow> 32 word \<Rightarrow> 32 word" where
  "sha1_f t b c d =
     (if t < 20 then (b AND c) OR (NOT b AND d)
      else if t < 40 then b XOR c XOR d
      else if t < 60 then (b AND c) OR (b AND d) OR (c AND d)
      else b XOR c XOR d)"

definition sha1_k :: "nat \<Rightarrow> 32 word" where
  "sha1_k t =
     (if t < 20 then 0x5A827999 else if t < 40 then 0x6ED9EBA1
      else if t < 60 then 0x8F1BBCDC else 0xCA62C1D6)"

type_synonym sha1_state = "32 word \<times> 32 word \<times> 32 word \<times> 32 word \<times> 32 word"

fun sha1_rounds :: "nat \<Rightarrow> 32 word list \<Rightarrow> sha1_state \<Rightarrow> sha1_state" where
  "sha1_rounds t [] s = s"
| "sha1_rounds t (w # ws) (a, b, c, d, e) =
     sha1_rounds (Suc t) ws
       (word_rotl 5 a + sha1_f t b c d + e + w + sha1_k t, a, word_rotl 30 b, c, d)"

fun sha1_block :: "sha1_state \<Rightarrow> 32 word list \<Rightarrow> sha1_state" where
  "sha1_block (h0, h1, h2, h3, h4) blk =
     (case sha1_rounds 0 (sha1_schedule 64 blk) (h0, h1, h2, h3, h4) of
        (a, b, c, d, e) \<Rightarrow> (h0 + a, h1 + b, h2 + c, h3 + d, h4 + e))"

function sha1_blocks :: "sha1_state \<Rightarrow> 32 word list \<Rightarrow> sha1_state" where
  "sha1_blocks h ws =
     (if length ws < 16 then h else sha1_blocks (sha1_block h (take 16 ws)) (drop 16 ws))"
  by pat_completeness auto
termination
  by (relation "measure (\<lambda>(h, ws). length ws)") auto

declare sha1_blocks.simps [simp del]

definition sha1_Sum :: "bytes \<Rightarrow> bytes" where
  "sha1_Sum m =
     (case sha1_blocks (0x67452301, 0xEFCDAB89, 0x98BADCFE, 0x10325476, 0xC3D2E1F0)
             (words_of (sha1_pad m)) of
        (h0, h1, h2, h3, h4) \<Rightarrow>
          bytes_of h0 @ bytes_of h1 @ bytes_of h2 @ bytes_of h3 @ bytes_of h4)"

section \<open>The chunk store\<close>

text \<open>
  The table \<^verbatim>\<open>chunks (content BLOB, hash BLOB UNIQUE ON CONFLICT REPLACE, count INTEGER)\<close>
  is the list of its committed rows. \<open>row_count\<close> is the number the column
  \<^verbatim>\<open>count\<close> holds: an INTEGER of 64 bits, from \<open>- 2^63\<close> to \<open>2^63 - 1\<close>, or a
  REAL, which in this column is a binary64 number outside that range (the statement of the
  program writes whole numbers only, and the integer affinity of the column turns a whole
  REAL inside the range into an INTEGER).
\<close>

record chunk_row =
  row_content :: bytes
  row_hash :: bytes
  row_count :: int

text \<open>The scalar subquery \<^verbatim>\<open>(SELECT count FROM chunks WHERE hash = ?)\<close>: the count of
  the first matching row, NULL when there is none.\<close>

definition select_count :: "chunk_row list \<Rightarrow> bytes \<Rightarrow> int option" where
  "select_count t h =
     (case filter (\<lambda>r. row_hash r = h) t of [] \<Rightarrow> None | r # _ \<Rightarrow> Some (row_count r))"

text \<open>
  SQLite's \<^verbatim>\<open>1 + count\<close>. On an INTEGER it is integer addition while the sum fits 64
  bits. At \<open>2^63 - 1\<close> the addition overflows: SQLite then adds the operands as binary64
  numbers, and the sum \<open>2^63\<close> stays a REAL in the column. On a REAL the addition is
  binary64 too and gives the operand back, since neighbouring binary64 numbers of that
  size are at least 1024 apart: from \<open>2^63\<close> on the count no longer grows.
\<close>

definition sql_one_plus :: "int \<Rightarrow> int" where
  "sql_one_plus n =
     (if - (2 ^ 63) \<le> n \<and> n < 2 ^ 63 - 1 then 1 + n
      else if n = 2 ^ 63 - 1 then 2 ^ 63
      else n)"

text \<open>
  \<^verbatim>\<open>INSERT OR REPLACE INTO chunks VALUES (?, ?, COALESCE(1 + (SELECT ...), 1))\<close>:
  the rows that conflict on the unique column \<open>hash\<close> are deleted and the new row is
  inserted.
\<close>

definition sqlUpSert :: "bytes \<Rightarrow> bytes \<Rightarrow> chunk_row list \<Rightarrow> chunk_row list" where
  "sqlUpSert c h t =
     filter (\<lambda>r. row_hash r \<noteq> h) t @
     [\<lparr>row_content = c, row_hash = h,
       row_count = (case select_count t h of None \<Rightarrow> 1 | Some n \<Rightarrow> sql_one_plus n)\<rparr>]"

text \<open>
  \<^verbatim>\<open>SELECT hash, content FROM chunks WHERE COUNT > 1 ORDER BY count, hash DESC\<close>.
  \<open>row_before r s\<close> says that \<open>r\<close> may stand before \<open>s\<close> in that order; SQLite
  compares BLOBs bytewise, a proper prefix first. The rows are put in order by insertion.
\<close>

definition row_before :: "chunk_row \<Rightarrow> chunk_row \<Rightarrow> bool" where
  "row_before r s =
     (row_count r < row_count s \<or> (row_count r = row_count s \<and> row_hash s \<le> row_hash r))"

fun insert_row :: "chunk_row \<Rightarrow> chunk_row list \<Rightarrow> chunk_row list" where
  "insert_row r [] = [r]"
| "insert_row r (s # ss) = (if row_before r s then r # s # ss else s # insert_row r ss)"

fun order_rows :: "chunk_row list \<Rightarrow> chunk_row list" where
  "order_rows [] = []"
| "order_rows (r # rs) = insert_row r (order_rows rs)"

definition popularRows :: "chunk_row list \<Rightarrow> chunk_row list" where
  "popularRows t = order_rows (filter (\<lambda>r. 1 < row_count r) t)"

definition popularChunks :: "chunk_row list \<Rightarrow> (bytes \<times> bytes) list" where
  "popularChunks t = map (\<lambda>r. (row_hash r, row_content r)) (popularRows t)"

section \<open>The engine state and its environment\<close>

text \<open>
  \<open>Dict\<close> is the Go struct together with the two things it reaches outside the process:
  \<open>chunks\<close> is the committed content of the table behind \<^verbatim>\<open>d.db\<close>, and \<open>dictraw\<close>
  is the content of the file \<^verbatim>\<open>dictraw\<close> (\<open>None\<close> while it does not exist).
  The two counters are \<^verbatim>\<open>uint64\<close>.
\<close>

record Dict =
  chunks :: "chunk_row list"
  sdchDictChunks :: "bytes list"
  totalBytesDup :: "64 word"
  totalBytesIn :: "64 word"
  dictraw :: "bytes option"

type_synonym error = string

text \<open>
  Every call that can fail in the source takes its outcome from \<open>faults\<close>: \<open>None\<close> is
  success. \<open>exec_err k\<close> is the outcome of the \<open>k\<close>-th \<^verbatim>\<open>stmt.Exec\<close> of a call
  (from 0). A failed \<^verbatim>\<open>ioutil.WriteFile\<close> also says what it left in the file.
\<close>

record faults =
  begin_err :: "error option"
  prepare_err :: "error option"
  exec_err :: "nat \<Rightarrow> error option"
  close_err :: "error option"
  commit_err :: "error option"
  query_err :: "error option"
  rows_err :: "error option"
  write_err :: "(error \<times> bytes option) option"

definition no_faults :: faults where
  "no_faults =
     \<lparr>begin_err = None, prepare_err = None, exec_err = (\<lambda>k. None), close_err = None,
      commit_err = None, query_err = None, rows_err = None, write_err = None\<rparr>"

section \<open>The rebuild decision\<close>

text \<open>
  \<^verbatim>\<open>float64(uniq)/float64(len(d.sdchDictChunks)) > float64(0.1)\<close> is IEEE 754 binary64
  arithmetic. Values are exact rationals; \<open>fl64\<close> rounds a non-negative rational to the
  nearest binary64 number, ties to even, at 53 bits of precision. Overflow and subnormal
  numbers are left out: a quotient of two positive 64-bit integers is far from both. The
  divisor is the length of a list that is not empty where the source divides.
\<close>

definition round_half_even :: "rat \<Rightarrow> int" where
  "round_half_even x =
     (let f = \<lfloor>x\<rfloor>; r = x - of_int f
      in if r < 1 / 2 then f else if 1 / 2 < r then f + 1 else if even f then f else f + 1)"

definition binade :: "rat \<Rightarrow> int" where
  "binade x =
     (case quotient_of x of (p, q) \<Rightarrow>
        let d = bitlen p - bitlen q in if 2 powi d \<le> x then d else d - 1)"

definition fl64 :: "rat \<Rightarrow> rat" where
  "fl64 x =
     (if x = 0 then 0
      else let u = 2 powi (binade x - 52) in of_int (round_half_even (x / u)) * u)"

definition ratio_exceeds :: "int \<Rightarrow> int \<Rightarrow> bool" where
  "ratio_exceeds uniq n = (fl64 (1 / 10) < fl64 (fl64 (of_int uniq) / fl64 (of_int n)))"

text \<open>
  Go's \<^verbatim>\<open>copy(dst, src)\<close> overwrites the first \<open>min (len dst) (len src)\<close> elements of
  \<open>dst\<close>; the result is the new content of \<open>dst\<close>.
\<close>

definition go_copy :: "'a list \<Rightarrow> 'a list \<Rightarrow> 'a list" where
  "go_copy dst src = take (length dst) src @ drop (length src) dst"

text \<open>
  The slice \<^verbatim>\<open>all\<close> of \<^verbatim>\<open>needToUpdate\<close>, after \<^verbatim>\<open>sort.Sort\<close>:
  \<^verbatim>\<open>make\<close> gives \<open>len active + len hashes\<close> nil entries, the first
  \<^verbatim>\<open>copy\<close> writes at index 0, the second writes into the sub-slice
  \<^verbatim>\<open>all[len(all):]\<close>. The order is total and equal byte strings are the same value,
  so the sorted slice is \<open>sort\<close> of its content whatever algorithm \<^verbatim>\<open>sort.Sort\<close> runs.
\<close>

definition all_sorted :: "bytes list \<Rightarrow> bytes list \<Rightarrow> bytes list" where
  "all_sorted active hashes =
     (let all0 = replicate (length active + length hashes) [];
          all1 = go_copy all0 active;
          k = length all1;
          all2 = take k all1 @ go_copy (drop k all1) hashes
      in sort all2)"

text \<open>The loop over \<^verbatim>\<open>all[1:]\<close> with its three variables (\<open>lastH\<close> is the
  source's \<^verbatim>\<open>last\<close>); the result is \<open>uniq\<close>, a Go \<^verbatim>\<open>int\<close> that stays below
  the length of the slice.\<close>

fun scan :: "bytes \<Rightarrow> int \<Rightarrow> bool \<Rightarrow> bytes list \<Rightarrow> int" where
  "scan lastH uniq isDup [] = uniq"
| "scan lastH uniq isDup (fromAll # rest) =
     (if lastH = fromAll then scan lastH uniq True rest
      else scan fromAll (if \<not> isDup then uniq + 1 else uniq) isDup rest)"

text \<open>
  \<open>needToUpdate\<close> returns \<open>(contents, hashes, change)\<close> and the state, which it changes
  in the bootstrap branch. \<^verbatim>\<open>all[0]\<close> would panic on an empty slice; the slice has at
  least the length of the non-empty active list (lemma \<open>all_sorted_not_Nil\<close>).
\<close>

definition needToUpdate :: "faults \<Rightarrow> Dict \<Rightarrow> (bytes \<times> bytes list \<times> bool) \<times> Dict" where
  "needToUpdate env d =
     (case query_err env of
        Some e \<Rightarrow> (([], [], False), d)
      | None \<Rightarrow>
          let rows = popularChunks (chunks d);
              contents = concat (map snd rows);
              hashes = map fst rows
          in case rows_err env of
               Some e \<Rightarrow> (([], [], False), d)
             | None \<Rightarrow>
                 if sdchDictChunks d = []
                 then (([], [], False), d\<lparr>sdchDictChunks := hashes\<rparr>)
                 else
                   (case all_sorted (sdchDictChunks d) hashes of
                      [] \<Rightarrow> (([], [], False), d)
                    | lastH # rest \<Rightarrow>
                        ((contents, hashes,
                          ratio_exceeds (scan lastH 0 False rest) (int (length (sdchDictChunks d)))),
                         d)))"

definition makeDict :: "faults \<Rightarrow> Dict \<Rightarrow> error option \<times> Dict" where
  "makeDict env d =
     (case needToUpdate env d of
        ((contents, hashes, change), d') \<Rightarrow>
          if change then
            (case write_err env of
               Some (e, left) \<Rightarrow> (Some e, d'\<lparr>dictraw := left\<rparr>)
             | None \<Rightarrow> (None, d'\<lparr>sdchDictChunks := hashes, dictraw := Some contents\<rparr>))
          else (None, d'))"

text \<open>
  \<open>uniqueCount\<close> is the value of \<^verbatim>\<open>uniq\<close> that \<open>needToUpdate\<close> computes in a state
  with a non-empty active list.
\<close>

definition uniqueCount :: "Dict \<Rightarrow> int" where
  "uniqueCount d =
     (case all_sorted (sdchDictChunks d) (map fst (popularChunks (chunks d))) of
        [] \<Rightarrow> 0
      | lastH # rest \<Rightarrow> scan lastH 0 False rest)"

section \<open>Chunking and ingestion\<close>

text \<open>
  The rolling checksum is the package \<^verbatim>\<open>camlistore.org/pkg/rollsum\<close>, which is not part
  of the repository. It is a parameter: a start state (\<^verbatim>\<open>rollsum.New\<close>), the state
  after one more byte (\<^verbatim>\<open>Roll\<close>) and the boundary test (\<^verbatim>\<open>OnSplitWithBits\<close>).
\<close>

record 'r rollsum =
  rs_New :: 'r
  rs_Roll :: "'r \<Rightarrow> byte \<Rightarrow> 'r"
  rs_OnSplitWithBits :: "'r \<Rightarrow> nat \<Rightarrow> bool"

text \<open>
  The loop of \<^verbatim>\<open>parse\<close>. \<open>q\<close> is the input left, \<open>rs\<close> the checksum state, \<open>buf\<close>
  the open chunk, \<open>k\<close> the number of \<^verbatim>\<open>Exec\<close> calls so far, \<open>tx\<close> the table as the
  open transaction sees it, \<open>tin\<close> the counter \<^verbatim>\<open>d.totalBytesIn\<close>. The result is the
  error of a failed \<^verbatim>\<open>Exec\<close>, if any, with the table and the counter at that moment. The
  locals \<^verbatim>\<open>off\<close>, \<^verbatim>\<open>offs\<close> and \<^verbatim>\<open>hashes\<close> are written and never read.
\<close>

fun parse_loop ::
  "'r rollsum \<Rightarrow> (nat \<Rightarrow> error option) \<Rightarrow> bytes \<Rightarrow> 'r \<Rightarrow> bytes \<Rightarrow> nat \<Rightarrow>
   chunk_row list \<Rightarrow> 64 word \<Rightarrow> error option \<times> chunk_row list \<times> 64 word" where
  "parse_loop R ex [] rs buf k tx tin = (None, tx, tin)"
| "parse_loop R ex (b # q) rs buf k tx tin =
     (let rs' = rs_Roll R rs b;
          tin' = tin + 1;
          buf' = buf @ [b]
      in if rs_OnSplitWithBits R rs' 5 then
           (let h = sha1_Sum buf'
            in case ex k of
                 Some e \<Rightarrow> (Some e, tx, tin')
               | None \<Rightarrow> parse_loop R ex q rs' [] (Suc k) (sqlUpSert buf' h tx) tin')
         else parse_loop R ex q rs' buf' k tx tin')"

text \<open>
  \<open>parse\<close> returns the error it reports and the state it leaves. A transaction that is
  not committed leaves the table as it was. When \<^verbatim>\<open>stmt.Close\<close> or \<^verbatim>\<open>tx.Commit\<close>
  fails the source returns the variable \<^verbatim>\<open>err\<close>, which is nil there.
\<close>

definition parse :: "'r rollsum \<Rightarrow> faults \<Rightarrow> bytes \<Rightarrow> Dict \<Rightarrow> error option \<times> Dict" where
  "parse R env content d =
     (case begin_err env of
        Some e \<Rightarrow> (Some e, d)
      | None \<Rightarrow>
          (case prepare_err env of
             Some e \<Rightarrow> (Some e, d)
           | None \<Rightarrow>
               (case parse_loop R (exec_err env) content (rs_New R) [] 0 (chunks d)
                       (totalBytesIn d) of
                  (Some e, tx, tin) \<Rightarrow> (Some e, d\<lparr>totalBytesIn := tin\<rparr>)
                | (None, tx, tin) \<Rightarrow>
                    let d1 = d\<lparr>totalBytesIn := tin, totalBytesDup := totalBytesDup d + 0\<rparr>
                    in if close_err env \<noteq> None then (None, d1)
                       else if commit_err env \<noteq> None then (None, d1)
                       else makeDict env (d1\<lparr>chunks := tx\<rparr>))))"

text \<open>
  \<open>Eat\<close> runs the external \<^verbatim>\<open>vcdiff\<close> on the content against the file
  \<^verbatim>\<open>dictraw\<close>; the tool is the parameter \<open>vcdiff\<close>. Besides its result \<open>Eat\<close>
  returns the goroutine it starts, as the content that goroutine will \<open>parse\<close>
  (\<open>None\<close>: no goroutine). \<open>Eat_run\<close> is one call followed by its goroutine run to the
  end, with no other call in between.
\<close>

definition Eat ::
  "(bytes option \<Rightarrow> bytes \<Rightarrow> error + bytes) \<Rightarrow> bytes \<Rightarrow> Dict \<Rightarrow> (error + bytes) \<times> bytes option" where
  "Eat vcdiff content d =
     (case vcdiff (dictraw d) content of
        Inl e \<Rightarrow> (Inl e, None)
      | Inr diff \<Rightarrow> (Inr diff, Some content))"

definition Eat_run ::
  "'r rollsum \<Rightarrow> faults \<Rightarrow> (bytes option \<Rightarrow> bytes \<Rightarrow> error + bytes) \<Rightarrow> bytes \<Rightarrow> Dict \<Rightarrow>
   (error + bytes) \<times> Dict" where
  "Eat_run R env vcdiff content d =
     (case Eat vcdiff content d of
        (res, None) \<Rightarrow> (res, d)
      | (res, Some c) \<Rightarrow> (res, snd (parse R env c d)))"

section \<open>What a call ingests\<close>

text \<open>
  Two readings of the loop of \<open>parse\<close>, for stating what it does: \<open>closed_from\<close> lists
  the chunks the loop closes at a boundary, in order, and \<open>open_from\<close> is what is left in
  \<^verbatim>\<open>buf\<close> when the input ends. \<open>upsert_chunk\<close> is the one \<^verbatim>\<open>stmt.Exec\<close> of
  a chunk, \<open>boundary_at_end\<close> the boundary test after the last byte of a content,
  \<open>count_of\<close> the count the store has for a hash (0 without a record), and
  \<open>ingest_times\<close> runs \<open>parse\<close> on the same content \<open>n\<close> times in a row.
\<close>

fun closed_from :: "'r rollsum \<Rightarrow> bytes \<Rightarrow> 'r \<Rightarrow> bytes \<Rightarrow> bytes list" where
  "closed_from R [] rs buf = []"
| "closed_from R (b # q) rs buf =
     (let rs' = rs_Roll R rs b;
          buf' = buf @ [b]
      in if rs_OnSplitWithBits R rs' 5 then buf' # closed_from R q rs' []
         else closed_from R q rs' buf')"

fun open_from :: "'r rollsum \<Rightarrow> bytes \<Rightarrow> 'r \<Rightarrow> bytes \<Rightarrow> bytes" where
  "open_from R [] rs buf = buf"
| "open_from R (b # q) rs buf =
     (let rs' = rs_Roll R rs b;
          buf' = buf @ [b]
      in if rs_OnSplitWithBits R rs' 5 then open_from R q rs' []
         else open_from R q rs' buf')"

definition closed_chunks :: "'r rollsum \<Rightarrow> bytes \<Rightarrow> bytes list" where
  "closed_chunks R content = closed_from R content (rs_New R) []"

definition trailing_bytes :: "'r rollsum \<Rightarrow> bytes \<Rightarrow> bytes" where
  "trailing_bytes R content = open_from R content (rs_New R) []"

definition upsert_chunk :: "chunk_row list \<Rightarrow> bytes \<Rightarrow> chunk_row list" where
  "upsert_chunk t c = sqlUpSert c (sha1_Sum c) t"

definition boundary_at_end :: "'r rollsum \<Rightarrow> bytes \<Rightarrow> bool" where
  "boundary_at_end R content = rs_OnSplitWithBits R (foldl (rs_Roll R) (rs_New R) content) 5"

definition count_of :: "chunk_row list \<Rightarrow> bytes \<Rightarrow> int" where
  "count_of t h = (case select_count t h of None \<Rightarrow> 0 | Some n \<Rightarrow> n)"

fun ingest_times :: "'r rollsum \<Rightarrow> faults \<Rightarrow> nat \<Rightarrow> bytes \<Rightarrow> Dict \<Rightarrow> Dict" where
  "ingest_times R env 0 content d = d"
| "ingest_times R env (Suc n) content d =
     ingest_times R env n content (snd (parse R env content d))"

section \<open>A rolling checksum and states for the examples\<close>

text \<open>
  Modelled from the spec: the rolling checksum (\<^verbatim>\<open>camlistore.org/pkg/rollsum\<close>) is
  missing from the sources. The spec describes a checksum over a trailing window of the
  bytes consumed, to which the contribution of each byte is added when it enters the
  window and from which it is removed when the oldest byte leaves, and a boundary where
  the low \<open>B\<close> bits of the checksum are all zero. The spec fixes neither the length of
  the window nor the contribution of a byte: here the window holds 64 bytes and a byte
  contributes its value. Only the closed examples use \<open>spec_rollsum\<close>; every other
  statement holds for any rolling checksum.
\<close>

record spec_rs =
  rs_sum :: "32 word"
  rs_window :: bytes

text \<open>Modelled from the spec: one more byte enters the window (the missing
  \<^verbatim>\<open>Roll\<close>); once the window is full the oldest byte leaves it.\<close>

definition spec_Roll :: "spec_rs \<Rightarrow> byte \<Rightarrow> spec_rs" where
  "spec_Roll rs b =
     (if length (rs_window rs) < 64
      then \<lparr>rs_sum = rs_sum rs + ucast b, rs_window = rs_window rs @ [b]\<rparr>
      else \<lparr>rs_sum = rs_sum rs + ucast b - ucast (hd (rs_window rs)),
            rs_window = tl (rs_window rs) @ [b]\<rparr>)"

text \<open>Modelled from the spec: the boundary test (the missing \<^verbatim>\<open>OnSplitWithBits\<close>),
  all of the low \<open>n\<close> bits of the checksum zero.\<close>

definition spec_OnSplitWithBits :: "spec_rs \<Rightarrow> nat \<Rightarrow> bool" where
  "spec_OnSplitWithBits rs n = (rs_sum rs AND mask n = 0)"

text \<open>Modelled from the spec: the checksum as a whole, starting from an empty window (the
  missing \<^verbatim>\<open>rollsum.New\<close>).\<close>

definition spec_rollsum :: "spec_rs rollsum" where
  "spec_rollsum =
     \<lparr>rs_New = \<lparr>rs_sum = 0, rs_window = []\<rparr>, rs_Roll = spec_Roll,
      rs_OnSplitWithBits = spec_OnSplitWithBits\<rparr>"

text \<open>
  \<open>boot_Dict\<close> is a process that has just started on a store holding one chunk seen
  twice, \<open>empty_Dict\<close> one that has started on an empty store; \<open>failing_vcdiff\<close> is a
  delta tool that exits with an error.
\<close>

definition boot_row :: chunk_row where
  "boot_row = \<lparr>row_content = [32], row_hash = sha1_Sum [32], row_count = 2\<rparr>"

definition boot_Dict :: Dict where
  "boot_Dict =
     \<lparr>chunks = [boot_row], sdchDictChunks = [], totalBytesDup = 0, totalBytesIn = 0,
      dictraw = None\<rparr>"

definition empty_Dict :: Dict where
  "empty_Dict =
     \<lparr>chunks = [], sdchDictChunks = [], totalBytesDup = 0, totalBytesIn = 0, dictraw = None\<rparr>"

definition failing_vcdiff :: "bytes option \<Rightarrow> bytes \<Rightarrow> error + bytes" where
  "failing_vcdiff dict content = Inl ''exit status 1''"

text \<open>
  \<open>adopted_Dict\<close> is \<open>boot_Dict\<close> after the bootstrap adoption. \<open>equal_count_rows\<close> is a
  store of four chunks, two of them seen twice; the hashes are the SHA-1 digests of the
  one-byte contents.
\<close>

definition adopted_Dict :: Dict where
  "adopted_Dict = boot_Dict\<lparr>sdchDictChunks := [sha1_Sum [32]]\<rparr>"

text \<open>
  \<open>tenth_Dict\<close> has an active list of ten equal hashes, for which the scan counts 1.
\<close>

definition tenth_Dict :: Dict where
  "tenth_Dict = boot_Dict\<lparr>sdchDictChunks := replicate 10 (sha1_Sum [32])\<rparr>"

definition equal_count_rows :: "chunk_row list" where
  "equal_count_rows =
     [\<lparr>row_content = [0],
       row_hash = [91, 169, 60, 157, 176, 207, 249, 63, 82, 181, 33, 215, 66, 14, 67, 246,
                   237, 162, 120, 79],
       row_count = 2\<rparr>,
      \<lparr>row_content = [7],
       row_hash = [93, 27, 231, 233, 221, 161, 238, 136, 150, 190, 91, 126, 52, 168, 94, 225,
                   100, 82, 167, 180],
       row_count = 3\<rparr>,
      \<lparr>row_content = [1],
       row_hash = [191, 139, 69, 48, 216, 210, 70, 221, 116, 172, 83, 161, 52, 113, 187, 161,
                   121, 65, 223, 247],
       row_count = 1\<rparr>,
      \<lparr>row_content = [32],
       row_hash = [184, 88, 203, 40, 38, 23, 251, 9, 86, 217, 96, 33, 92, 142, 132, 209,
                   204, 249, 9, 198],
       row_count = 2\<rparr>]"

section \<open>Basic facts\<close>

lemma length_sha1_Sum: "length (sha1_Sum m) = 20"
  by (simp add: sha1_Sum_def bytes_of_def split: prod.splits)

lemma sha1_Sum_not_Nil: "sha1_Sum m \<noteq> []"
  using length_sha1_Sum [of m] by auto

lemma all_sorted_eq: "all_sorted active hashes = sort (active @ replicate (length hashes) [])"
  by (simp add: all_sorted_def Let_def go_copy_def)

lemma sort_Nil_front: "sort (xs @ replicate n ([]::bytes)) = replicate n [] @ sort xs"
proof -
  have "mset (xs @ replicate n ([]::bytes)) = mset (replicate n [] @ sort xs)"
    by simp
  moreover have "sorted (replicate n ([]::bytes) @ sort xs)"
    by (auto simp: sorted_append)
  ultimately show ?thesis
    by (metis properties_for_sort)
qed

lemma all_sorted_not_Nil: "active \<noteq> [] \<Longrightarrow> all_sorted active hashes \<noteq> []"
proof -
  assume "active \<noteq> []"
  moreover have "length (all_sorted active hashes) = length active + length hashes"
    by (simp add: all_sorted_eq)
  ultimately show ?thesis by auto
qed

lemma scan_isDup: "scan l u True xs = u"
  by (induction xs arbitrary: l) auto

lemma needToUpdate_bootstrap:
  "query_err env = None \<Longrightarrow> rows_err env = None \<Longrightarrow> sdchDictChunks d = [] \<Longrightarrow>
   needToUpdate env d =
     (([], [], False), d\<lparr>sdchDictChunks := map fst (popularChunks (chunks d))\<rparr>)"
  by (simp add: needToUpdate_def Let_def)

lemma needToUpdate_state:
  "snd (needToUpdate env d) = d \<or>
   (sdchDictChunks d = [] \<and>
    snd (needToUpdate env d) = d\<lparr>sdchDictChunks := map fst (popularChunks (chunks d))\<rparr>)"
  by (simp add: needToUpdate_def Let_def split: option.splits list.splits)

lemma makeDict_chunks: "chunks (snd (makeDict env d)) = chunks d"
  using needToUpdate_state [of env d]
  by (auto simp: makeDict_def split: prod.splits option.splits)

lemma makeDict_totalBytesIn: "totalBytesIn (snd (makeDict env d)) = totalBytesIn d"
  using needToUpdate_state [of env d]
  by (auto simp: makeDict_def split: prod.splits option.splits)

lemma popularChunks_boot: "popularChunks [boot_row] = [(sha1_Sum [32], [32])]"
  by (simp add: popularChunks_def popularRows_def boot_row_def)

lemma parse_Nil:
  "begin_err env = None \<Longrightarrow> prepare_err env = None \<Longrightarrow> close_err env = None \<Longrightarrow>
   commit_err env = None \<Longrightarrow> parse R env [] d = makeDict env d"
  by (simp add: parse_def)

lemma ratio_exceeds_1_1: "ratio_exceeds 1 1"
  by code_simp

lemma makeDict_adopted:
  "makeDict no_faults adopted_Dict = (None, adopted_Dict\<lparr>dictraw := Some [32]\<rparr>)"
  by (simp add: makeDict_def needToUpdate_def no_faults_def adopted_Dict_def boot_Dict_def
      popularChunks_boot all_sorted_eq sha1_Sum_not_Nil sha1_Sum_not_Nil [symmetric]
      ratio_exceeds_1_1)

lemma makeDict_boot:
  "makeDict no_faults boot_Dict = (None, boot_Dict\<lparr>sdchDictChunks := [sha1_Sum [32]]\<rparr>)"
  using needToUpdate_bootstrap [of no_faults boot_Dict]
  by (simp add: makeDict_def no_faults_def boot_Dict_def popularChunks_boot)

section \<open>The combined sequence (C1)\<close>

text \<open>
  C1. The claim: with a non-empty active list, the sequence that is sorted and scanned is
  the active hashes followed by the candidate hashes. The second \<^verbatim>\<open>copy\<close> of the
  source writes into \<^verbatim>\<open>all[len(all):]\<close>, an empty slice, so no candidate hash is
  copied: the sequence holds the active hashes and one nil entry for each candidate
  (lemma \<open>all_sorted_eq\<close>). After the bootstrap of \<open>boot_Dict\<close> the active list and the
  candidates are both \<open>[sha1 [32]]\<close>: the code scans \<open>[nil, sha1 [32]]\<close> where the
  claim has \<open>[sha1 [32], sha1 [32]]\<close>.
\<close>

theorem C1_candidates_not_copied:
  "all_sorted [sha1_Sum [32]] (map fst (popularChunks [boot_row])) = [[], sha1_Sum [32]] \<and>
   sort ([sha1_Sum [32]] @ map fst (popularChunks [boot_row])) = [sha1_Sum [32], sha1_Sum [32]]"
  by (simp add: all_sorted_eq popularChunks_boot)

section \<open>The scan (C2)\<close>

text \<open>
  C2. The claim: a run of equal hashes stops the counting only until the run ends, so
  single values after the run are counted. In the source \<^verbatim>\<open>isDup\<close> is set and never
  cleared, so nothing is counted after the first pair of equal neighbours (lemma
  \<open>scan_isDup\<close>). With two active hashes and two candidates the sorted slice is two nil
  entries followed by the two active hashes in order: the scan starts at the first entry,
  meets the run of nil entries and returns 0, although two single values follow the run.
  A single value with no run in front of it is counted.
\<close>

theorem C2_scan_stays_suppressed:
  "all_sorted [sha1_Sum [0], sha1_Sum [32]] [sha1_Sum [0], sha1_Sum [32]] =
     [] # [] # sort [sha1_Sum [0], sha1_Sum [32]] \<and>
   scan [] 0 False ([] # sort [sha1_Sum [0], sha1_Sum [32]]) = 0 \<and>
   scan [] 0 False [sha1_Sum [32]] = 1"
proof -
  have "sort ([sha1_Sum [0], sha1_Sum [32]] @ replicate 2 []) =
        replicate 2 [] @ sort [sha1_Sum [0], sha1_Sum [32]]"
    by (rule sort_Nil_front)
  then have "all_sorted [sha1_Sum [0], sha1_Sum [32]] [sha1_Sum [0], sha1_Sum [32]] =
             [] # [] # sort [sha1_Sum [0], sha1_Sum [32]]"
    by (simp add: all_sorted_eq numeral_2_eq_2)
  moreover have "scan [] 0 False ([] # sort [sha1_Sum [0], sha1_Sum [32]]) = 0"
    by (simp add: scan_isDup)
  moreover have "scan [] 0 False [sha1_Sum [32]] = 1"
    by (simp add: sha1_Sum_not_Nil [symmetric])
  ultimately show ?thesis by blast
qed

section \<open>Bootstrap (C5)\<close>

text \<open>
  C5. When the active hash list is empty and the query succeeds, the re-evaluation makes
  the candidate hash sequence the active list and does nothing else: no error, and the file
  \<^verbatim>\<open>dictraw\<close> is as before, whatever a write would have done.
\<close>

theorem C5_bootstrap_adopts_without_writing:
  "query_err env = None \<Longrightarrow> rows_err env = None \<Longrightarrow> sdchDictChunks d = [] \<Longrightarrow>
   makeDict env d = (None, d\<lparr>sdchDictChunks := map fst (popularChunks (chunks d))\<rparr>) \<and>
   dictraw (snd (makeDict env d)) = dictraw d"
  by (simp add: makeDict_def needToUpdate_bootstrap)

theorem C5_bootstrap_witness:
  "sdchDictChunks (snd (makeDict no_faults boot_Dict)) = [sha1_Sum [32]] \<and>
   dictraw (snd (makeDict no_faults boot_Dict)) = None"
  using C5_bootstrap_adopts_without_writing [of no_faults boot_Dict]
  by (simp add: no_faults_def boot_Dict_def popularChunks_boot)

section \<open>A failing delta tool (C8)\<close>

text \<open>
  C8. When the delta tool fails on the content, \<open>Eat\<close> returns its error and starts no
  goroutine, and the state after the call and all it started is the state before: no
  chunking, no change of the store.
\<close>

theorem C8_Eat_delta_failure:
  "vcdiff (dictraw d) content = Inl e \<Longrightarrow>
   Eat vcdiff content d = (Inl e, None) \<and> Eat_run R env vcdiff content d = (Inl e, d)"
  by (simp add: Eat_def Eat_run_def)

theorem C8_Eat_delta_failure_witness:
  "Eat failing_vcdiff [32] boot_Dict = (Inl ''exit status 1'', None) \<and>
   Eat_run spec_rollsum no_faults failing_vcdiff [32] boot_Dict =
     (Inl ''exit status 1'', boot_Dict)"
  using C8_Eat_delta_failure
    [of failing_vcdiff boot_Dict "[32]" "''exit status 1''" spec_rollsum no_faults]
  by (simp add: failing_vcdiff_def)

section \<open>The popular chunks (C6)\<close>

lemma row_before_total: "row_before r s \<or> row_before s r"
  by (auto simp: row_before_def)

lemma row_before_trans: "row_before r s \<Longrightarrow> row_before s t \<Longrightarrow> row_before r t"
  by (auto simp: row_before_def)

lemma mset_insert_row: "mset (insert_row r rs) = add_mset r (mset rs)"
  by (induction rs) auto

lemma set_insert_row: "set (insert_row r rs) = insert r (set rs)"
  by (induction rs) auto

lemma mset_order_rows: "mset (order_rows rs) = mset rs"
  by (induction rs) (auto simp: mset_insert_row)

lemma sorted_insert_row:
  "sorted_wrt row_before rs \<Longrightarrow> sorted_wrt row_before (insert_row r rs)"
proof (induction rs)
  case Nil
  then show ?case by simp
next
  case (Cons s ss)
  show ?case
  proof (cases "row_before r s")
    case True
    with Cons.prems show ?thesis
      by (auto intro: row_before_trans)
  next
    case False
    then have "row_before s r"
      using row_before_total by blast
    with Cons False show ?thesis
      by (auto simp: set_insert_row)
  qed
qed

lemma sorted_order_rows: "sorted_wrt row_before (order_rows rs)"
  by (induction rs) (auto intro: sorted_insert_row)

lemma sorted_rows_unique:
  "sorted_wrt row_before xs \<Longrightarrow> sorted_wrt row_before ys \<Longrightarrow> mset xs = mset ys \<Longrightarrow>
   distinct (map row_hash xs) \<Longrightarrow> xs = ys"
proof (induction xs arbitrary: ys)
  case Nil
  then show ?case by simp
next
  case (Cons x xs)
  then obtain y ys' where ys: "ys = y # ys'"
    by (cases ys) auto
  have xy: "x = y"
  proof (rule ccontr)
    assume neq: "x \<noteq> y"
    have "x \<in> set ys" using Cons.prems(3) by (metis list.set_intros(1) mset_eq_setD)
    with neq ys have "x \<in> set ys'" by auto
    with Cons.prems(2) ys have 1: "row_before y x" by auto
    have "y \<in> set (x # xs)" using Cons.prems(3) ys by (metis list.set_intros(1) mset_eq_setD)
    with neq have yxs: "y \<in> set xs" by auto
    with Cons.prems(1) have 2: "row_before x y" by auto
    from 1 2 have "row_hash x = row_hash y"
      by (auto simp: row_before_def)
    with yxs Cons.prems(4) show False by auto
  qed
  with Cons ys show ?case by auto
qed


text \<open>
  C6. The query returns the hash and content of exactly the rows with a count above 1
  (as a multiset of rows), and of any two rows it returns the earlier one has the smaller
  count or, with equal counts, the greater or equal hash. When the hashes of the table are
  distinct, as the unique constraint makes them, there is only one such sequence (lemma
  \<open>sorted_rows_unique\<close>).
\<close>

theorem C6_popularChunks_order:
  "popularChunks t = map (\<lambda>r. (row_hash r, row_content r)) (popularRows t) \<and>
   mset (popularRows t) = filter_mset (\<lambda>r. 1 < row_count r) (mset t) \<and>
   sorted_wrt
     (\<lambda>r s. row_count r < row_count s \<or> (row_count r = row_count s \<and> row_hash s \<le> row_hash r))
     (popularRows t)"
proof -
  have "sorted_wrt row_before (popularRows t)"
    by (simp add: popularRows_def sorted_order_rows)
  moreover have "row_before =
    (\<lambda>r s. row_count r < row_count s \<or> (row_count r = row_count s \<and> row_hash s \<le> row_hash r))"
    by (intro ext) (simp add: row_before_def)
  ultimately show ?thesis
    by (simp add: popularChunks_def popularRows_def mset_order_rows)
qed

theorem C6_popularChunks_order_witness:
  "popularChunks equal_count_rows =
     [([184, 88, 203, 40, 38, 23, 251, 9, 86, 217, 96, 33, 92, 142, 132, 209,
        204, 249, 9, 198], [32]),
      ([91, 169, 60, 157, 176, 207, 249, 63, 82, 181, 33, 215, 66, 14, 67, 246,
        237, 162, 120, 79], [0]),
      ([93, 27, 231, 233, 221, 161, 238, 136, 150, 190, 91, 126, 52, 168, 94, 225,
        100, 82, 167, 180], [7])]"
  using C6_popularChunks_order [of equal_count_rows]
  by (simp add: popularChunks_def popularRows_def equal_count_rows_def row_before_def)

section \<open>Empty content (C10)\<close>

text \<open>
  C10. When the transaction calls succeed, \<open>parse\<close> of the empty content is
  \<open>makeDict\<close>: the table and \<^verbatim>\<open>totalBytesIn\<close> stay as they are and the rebuild
  decision runs all the same. It can change the dictionary: on \<open>boot_Dict\<close> the call
  adopts an active list, on \<open>adopted_Dict\<close> it writes the file \<^verbatim>\<open>dictraw\<close>.
\<close>

theorem C10_empty_content_reevaluates:
  "begin_err env = None \<Longrightarrow> prepare_err env = None \<Longrightarrow> close_err env = None \<Longrightarrow>
   commit_err env = None \<Longrightarrow>
   parse R env [] d = makeDict env d \<and>
   chunks (snd (parse R env [] d)) = chunks d \<and>
   totalBytesIn (snd (parse R env [] d)) = totalBytesIn d \<and>
   sdchDictChunks (snd (parse R no_faults [] boot_Dict)) \<noteq> sdchDictChunks boot_Dict \<and>
   dictraw (snd (parse R no_faults [] adopted_Dict)) \<noteq> dictraw adopted_Dict"
proof -
  assume env: "begin_err env = None" "prepare_err env = None" "close_err env = None"
    "commit_err env = None"
  have nf: "begin_err no_faults = None" "prepare_err no_faults = None"
    "close_err no_faults = None" "commit_err no_faults = None"
    "query_err no_faults = None" "rows_err no_faults = None"
    by (simp_all add: no_faults_def)
  have a: "parse R env [] d = makeDict env d"
    using env by (rule parse_Nil)
  have b: "parse R no_faults [] boot_Dict = makeDict no_faults boot_Dict"
    using nf(1-4) by (rule parse_Nil)
  have c: "parse R no_faults [] adopted_Dict = makeDict no_faults adopted_Dict"
    using nf(1-4) by (rule parse_Nil)
  have "sdchDictChunks (snd (makeDict no_faults boot_Dict)) \<noteq> sdchDictChunks boot_Dict"
    by (simp add: makeDict_boot) (simp add: boot_Dict_def)
  moreover have "dictraw (snd (makeDict no_faults adopted_Dict)) \<noteq> dictraw adopted_Dict"
    by (simp add: makeDict_adopted) (simp add: adopted_Dict_def boot_Dict_def)
  ultimately show ?thesis
    by (simp add: a b c makeDict_chunks makeDict_totalBytesIn)
qed

theorem C10_empty_content_witness:
  "parse spec_rollsum no_faults [] boot_Dict =
     (None, boot_Dict\<lparr>sdchDictChunks := [sha1_Sum [32]]\<rparr>)"
proof -
  have "parse spec_rollsum no_faults [] boot_Dict = makeDict no_faults boot_Dict"
    using C10_empty_content_reevaluates [of no_faults spec_rollsum boot_Dict]
    by (simp add: no_faults_def)
  then show ?thesis
    by (simp add: makeDict_boot)
qed

section \<open>The chunks of a call (C3)\<close>

lemma closed_open_concat:
  "concat (closed_from R q rs buf) @ open_from R q rs buf = buf @ q"
  by (induction q arbitrary: rs buf) (auto simp: Let_def)

lemma open_from_Nil_iff:
  "open_from R q rs buf = [] \<longleftrightarrow>
     (if q = [] then buf = [] else rs_OnSplitWithBits R (foldl (rs_Roll R) rs q) 5)"
proof (induction q arbitrary: rs buf)
  case Nil
  then show ?case by simp
next
  case (Cons b q)
  show ?case
  proof (cases "q = []")
    case True
    then show ?thesis by (simp add: Let_def)
  next
    case False
    then have "open_from R q rs' buf' = [] \<longleftrightarrow>
        rs_OnSplitWithBits R (foldl (rs_Roll R) rs' q) 5" for rs' buf'
      using Cons.IH [of rs' buf'] by simp
    then show ?thesis by (simp add: Let_def)
  qed
qed

lemma parse_loop_chunks:
  "(\<forall>k. ex k = None) \<Longrightarrow>
   parse_loop R ex q rs buf k tx tin =
     (None, foldl upsert_chunk tx (closed_from R q rs buf), tin + of_nat (length q))"
  by (induction q arbitrary: rs buf k tx tin)
     (auto simp: Let_def upsert_chunk_def)

lemma parse_table:
  assumes "begin_err env = None" "prepare_err env = None" "\<forall>k. exec_err env k = None"
    "close_err env = None" "commit_err env = None"
  shows "chunks (snd (parse R env content d)) = foldl upsert_chunk (chunks d) (closed_chunks R content)"
  using assms
  by (simp add: parse_def parse_loop_chunks closed_chunks_def makeDict_chunks)

lemma spec_steps:
  "rs_Roll spec_rollsum = spec_Roll" "rs_New spec_rollsum = \<lparr>rs_sum = 0, rs_window = []\<rparr>"
  "rs_OnSplitWithBits spec_rollsum = spec_OnSplitWithBits"
  by (simp_all add: spec_rollsum_def)

lemma closed_1: "closed_chunks spec_rollsum [1] = []"
  by (simp add: closed_chunks_def spec_steps spec_Roll_def spec_OnSplitWithBits_def
      mask_eq_exp_minus_1)

lemma closed_32_1: "closed_chunks spec_rollsum [32, 1] = [[32]]"
  by (simp add: closed_chunks_def spec_steps spec_Roll_def spec_OnSplitWithBits_def mask_eq_exp_minus_1)

lemma trailing_32_1: "trailing_bytes spec_rollsum [32, 1] = [1]"
  by (simp add: trailing_bytes_def spec_steps spec_Roll_def spec_OnSplitWithBits_def mask_eq_exp_minus_1)

text \<open>
  C3. The claim: when the last byte is not a boundary, the bytes after the last boundary
  form a final chunk that is digested and upserted like the others. The source upserts
  inside the loop only, at a boundary, and does nothing with \<^verbatim>\<open>buf\<close> after the loop.
  With the checksum \<open>spec_rollsum\<close> the one byte of the content \<open>[1]\<close> is not a
  boundary, and the store, empty before the call, is empty after it.
\<close>

theorem C3_final_chunk_counterexample:
  "\<not> boundary_at_end spec_rollsum [1] \<and>
   chunks (snd (parse spec_rollsum no_faults [1] empty_Dict)) = []"
proof -
  have "\<not> boundary_at_end spec_rollsum [1]"
    by (simp add: boundary_at_end_def spec_steps spec_Roll_def spec_OnSplitWithBits_def
        mask_eq_exp_minus_1)
  moreover have "chunks (snd (parse spec_rollsum no_faults [1] empty_Dict)) =
    foldl upsert_chunk (chunks empty_Dict) (closed_chunks spec_rollsum [1])"
    by (rule parse_table) (simp_all add: no_faults_def)
  ultimately show ?thesis
    by (simp add: closed_1 empty_Dict_def)
qed

text \<open>
  C3 as amended. When the calls on the transaction succeed and the last byte of a
  non-empty content is not a boundary, the table after the call is the table before it
  with one upsert for each chunk closed at a boundary, in order; these chunks followed by
  the trailing bytes are the content, and the trailing bytes, which are not empty, are not
  upserted.
\<close>

theorem C3_trailing_bytes_dropped:
  "begin_err env = None \<Longrightarrow> prepare_err env = None \<Longrightarrow> (\<forall>k. exec_err env k = None) \<Longrightarrow>
   close_err env = None \<Longrightarrow> commit_err env = None \<Longrightarrow>
   content \<noteq> [] \<Longrightarrow> \<not> boundary_at_end R content \<Longrightarrow>
   chunks (snd (parse R env content d)) =
     foldl upsert_chunk (chunks d) (closed_chunks R content) \<and>
   concat (closed_chunks R content) @ trailing_bytes R content = content \<and>
   trailing_bytes R content \<noteq> []"
  using closed_open_concat [of R content "rs_New R" "[]"]
    open_from_Nil_iff [of R content "rs_New R" "[]"]
  by (simp add: parse_table closed_chunks_def trailing_bytes_def boundary_at_end_def)

theorem C3_trailing_bytes_dropped_witness:
  "chunks (snd (parse spec_rollsum no_faults [32, 1] boot_Dict)) =
     foldl upsert_chunk [boot_row] [[32]] \<and>
   concat [[32]] @ [1] = [32, 1] \<and> trailing_bytes spec_rollsum [32, 1] = [1]"
proof -
  have "\<not> boundary_at_end spec_rollsum [32, 1]"
    by (simp add: boundary_at_end_def spec_steps spec_Roll_def spec_OnSplitWithBits_def
        mask_eq_exp_minus_1)
  then show ?thesis
    using C3_trailing_bytes_dropped [of no_faults "[32, 1]" spec_rollsum boot_Dict]
    by (simp add: no_faults_def closed_32_1 trailing_32_1) (simp add: boot_Dict_def)
qed

section \<open>Counting (C7)\<close>

lemma sql_one_plus_integer: "- (2 ^ 63) \<le> n \<Longrightarrow> n < 2 ^ 63 - 1 \<Longrightarrow> sql_one_plus n = n + 1"
  by (simp add: sql_one_plus_def)

lemma sql_one_plus_overflow: "2 ^ 63 - 1 \<le> n \<Longrightarrow> n \<le> 2 ^ 63 \<Longrightarrow> sql_one_plus n = 2 ^ 63"
  by (simp add: sql_one_plus_def)

lemma funpow_sql_one_plus:
  "0 \<le> n \<Longrightarrow> n + int m < 2 ^ 63 \<Longrightarrow> (sql_one_plus ^^ m) n = n + int m"
proof (induction m)
  case 0
  then show ?case by simp
next
  case (Suc m)
  then have "(sql_one_plus ^^ m) n = n + int m"
    by simp
  moreover have "sql_one_plus (n + int m) = n + int m + 1"
    using Suc.prems by (intro sql_one_plus_integer) simp_all
  ultimately show ?case
    by simp
qed

lemma filter_hash_upsert:
  "filter (\<lambda>r. row_hash r = h) (sqlUpSert c h t) =
     [\<lparr>row_content = c, row_hash = h,
       row_count = (case select_count t h of None \<Rightarrow> 1 | Some n \<Rightarrow> sql_one_plus n)\<rparr>]"
  by (simp add: sqlUpSert_def)

lemma select_count_upsert_same:
  "select_count (sqlUpSert c h t) h =
     Some (case select_count t h of None \<Rightarrow> 1 | Some n \<Rightarrow> sql_one_plus n)"
  unfolding select_count_def [of "sqlUpSert c h t"] filter_hash_upsert by simp

lemma select_count_upsert_other:
  "h' \<noteq> h \<Longrightarrow> select_count (sqlUpSert c h t) h' = select_count t h'"
proof -
  assume "h' \<noteq> h"
  then have "filter (\<lambda>r. row_hash r = h') (sqlUpSert c h t) = filter (\<lambda>r. row_hash r = h') t"
    by (auto simp: sqlUpSert_def intro: filter_cong)
  then show ?thesis
    by (simp add: select_count_def)
qed

lemma count_of_upsert_chunk:
  "count_of (upsert_chunk t c) h =
     (if sha1_Sum c = h then sql_one_plus (count_of t h) else count_of t h)"
  by (auto simp: count_of_def upsert_chunk_def select_count_upsert_same select_count_upsert_other
      sql_one_plus_def split: option.splits)

lemma count_of_foldl:
  "count_of (foldl upsert_chunk t cs) h =
     (sql_one_plus ^^ count_list (map sha1_Sum cs) h) (count_of t h)"
proof (induction cs arbitrary: t)
  case Nil
  then show ?case by simp
next
  case (Cons c cs)
  show ?case
    by (simp add: Cons.IH count_of_upsert_chunk funpow_swap1)
qed

lemma count_of_ingest_times:
  assumes "begin_err env = None" "prepare_err env = None" "\<forall>k. exec_err env k = None"
    "close_err env = None" "commit_err env = None"
  shows "count_of (chunks (ingest_times R env N content d)) h =
     (sql_one_plus ^^ (N * count_list (map sha1_Sum (closed_chunks R content)) h))
       (count_of (chunks d) h)"
proof (induction N arbitrary: d)
  case 0
  then show ?case by simp
next
  case (Suc N)
  define k where "k = count_list (map sha1_Sum (closed_chunks R content)) h"
  have "(sql_one_plus ^^ (Suc N * k)) (count_of (chunks d) h) =
      (sql_one_plus ^^ (N * k + k)) (count_of (chunks d) h)"
    by (simp add: add.commute)
  also have "\<dots> = (sql_one_plus ^^ (N * k)) ((sql_one_plus ^^ k) (count_of (chunks d) h))"
    by (simp only: funpow_add o_apply)
  finally show ?case
    by (simp add: Suc.IH parse_table [OF assms] count_of_foldl k_def)
qed

lemma closed_31_1_0_0: "closed_chunks spec_rollsum [31, 1, 0, 0] = [[31, 1], [0], [0]]"
  by (simp add: closed_chunks_def spec_steps spec_Roll_def spec_OnSplitWithBits_def
      mask_eq_exp_minus_1 Let_def)

text \<open>
  C7. The claim: an upsert inserts a record with count 1 or adds one to the count of the
  record there is, so that ingesting a content \<open>N\<close> times gives each of its chunks the
  count \<open>N\<close>. The second half does not hold when a chunk occurs more than once in the
  content: the content \<open>[31, 1, 0, 0]\<close> ends in the chunk \<open>[0]\<close> twice (with the
  checksum \<open>spec_rollsum\<close> its chunks are \<open>[31, 1]\<close>, \<open>[0]\<close>, \<open>[0]\<close>), and one
  ingestion into the empty store gives the hash of \<open>[0]\<close> a count of at least 2.
\<close>

theorem C7_count_N_counterexample:
  "closed_chunks spec_rollsum [31, 1, 0, 0] = [[31, 1], [0], [0]] \<and>
   2 \<le> count_of (chunks (ingest_times spec_rollsum no_faults 1 [31, 1, 0, 0] empty_Dict))
         (sha1_Sum [0])"
proof -
  define k where "k = count_list (map sha1_Sum (closed_chunks spec_rollsum [31, 1, 0, 0])) (sha1_Sum [0])"
  have k: "2 \<le> k" "k \<le> 3"
    by (simp_all add: k_def closed_31_1_0_0)
  have "count_of (chunks (ingest_times spec_rollsum no_faults 1 [31, 1, 0, 0] empty_Dict))
      (sha1_Sum [0]) = (sql_one_plus ^^ (1 * k)) (count_of (chunks empty_Dict) (sha1_Sum [0]))"
    unfolding k_def by (rule count_of_ingest_times) (simp_all add: no_faults_def)
  also have "count_of (chunks empty_Dict) (sha1_Sum [0]) = 0"
    by (simp add: count_of_def select_count_def empty_Dict_def)
  also have "(sql_one_plus ^^ (1 * k)) 0 = 0 + int k"
    using k(2) funpow_sql_one_plus [of 0 k] by simp
  finally show ?thesis
    using k(1) by (simp add: closed_31_1_0_0)
qed

text \<open>
  C7 as amended. An upsert leaves exactly one record for the hash and leaves the counts
  of the other hashes alone. The count of the record is 1 when there was none and one more
  than before when the count before is an INTEGER below \<open>2^63 - 1\<close>; from there the
  addition overflows into the REAL \<open>2^63\<close>, at which the count stays. When the calls on
  the transaction succeed, ingesting a content \<open>N\<close> times adds to the count of every
  hash \<open>N\<close> times the number of chunks of the content with that hash, as long as the sum
  stays below \<open>2^63\<close>: \<open>N\<close> for a chunk that occurs once in the content and was not in
  the store.
\<close>

theorem C7_upsert_counts:
  "begin_err env = None \<Longrightarrow> prepare_err env = None \<Longrightarrow> (\<forall>k. exec_err env k = None) \<Longrightarrow>
   close_err env = None \<Longrightarrow> commit_err env = None \<Longrightarrow>
   0 \<le> count_of (chunks d) h \<Longrightarrow>
   count_of (chunks d) h +
     int N * int (count_list (map sha1_Sum (closed_chunks R content)) h) < 2 ^ 63 \<Longrightarrow>
   (select_count t h = None \<longrightarrow> select_count (sqlUpSert c h t) h = Some 1) \<and>
   (\<forall>n. select_count t h = Some n \<longrightarrow> - (2 ^ 63) \<le> n \<longrightarrow> n < 2 ^ 63 - 1 \<longrightarrow>
      select_count (sqlUpSert c h t) h = Some (n + 1)) \<and>
   (\<forall>n. select_count t h = Some n \<longrightarrow> 2 ^ 63 - 1 \<le> n \<longrightarrow> n \<le> 2 ^ 63 \<longrightarrow>
      select_count (sqlUpSert c h t) h = Some (2 ^ 63)) \<and>
   length (filter (\<lambda>r. row_hash r = h) (sqlUpSert c h t)) = 1 \<and>
   (\<forall>h'. h' \<noteq> h \<longrightarrow> select_count (sqlUpSert c h t) h' = select_count t h') \<and>
   count_of (chunks (ingest_times R env N content d)) h =
     count_of (chunks d) h + int N * int (count_list (map sha1_Sum (closed_chunks R content)) h)"
proof -
  assume env: "begin_err env = None" "prepare_err env = None" "\<forall>k. exec_err env k = None"
    "close_err env = None" "commit_err env = None"
    and lo: "0 \<le> count_of (chunks d) h"
    and hi: "count_of (chunks d) h +
      int N * int (count_list (map sha1_Sum (closed_chunks R content)) h) < 2 ^ 63"
  have "count_of (chunks (ingest_times R env N content d)) h =
      (sql_one_plus ^^ (N * count_list (map sha1_Sum (closed_chunks R content)) h))
        (count_of (chunks d) h)"
    using env by (rule count_of_ingest_times)
  also have "\<dots> = count_of (chunks d) h +
      int (N * count_list (map sha1_Sum (closed_chunks R content)) h)"
    using lo hi by (intro funpow_sql_one_plus) simp_all
  finally have "count_of (chunks (ingest_times R env N content d)) h =
      count_of (chunks d) h + int N * int (count_list (map sha1_Sum (closed_chunks R content)) h)"
    by simp
  then show ?thesis
    by (simp add: select_count_upsert_same select_count_upsert_other filter_hash_upsert
        sql_one_plus_integer sql_one_plus_overflow)
qed

theorem C7_upsert_counts_witness:
  "select_count (sqlUpSert [32] (sha1_Sum [32]) []) (sha1_Sum [32]) = Some 1 \<and>
   select_count (sqlUpSert [32] (sha1_Sum [32]) [boot_row]) (sha1_Sum [32]) = Some 3 \<and>
   count_of (chunks (ingest_times spec_rollsum no_faults 3 [32, 1] empty_Dict)) (sha1_Sum [32]) = 3"
proof -
  have nf: "begin_err no_faults = None" "prepare_err no_faults = None"
    "\<forall>k. exec_err no_faults k = None" "close_err no_faults = None" "commit_err no_faults = None"
    by (simp_all add: no_faults_def)
  have e: "select_count [] (sha1_Sum [32]) = None"
    by (simp add: select_count_def)
  have b: "select_count [boot_row] (sha1_Sum [32]) = Some 2"
    by (simp add: select_count_def boot_row_def)
  have c: "count_of (chunks empty_Dict) (sha1_Sum [32]) = 0"
    by (simp add: count_of_def select_count_def empty_Dict_def)
  show ?thesis
    using C7_upsert_counts [OF nf, of empty_Dict "sha1_Sum [32]" 3 spec_rollsum "[32, 1]"
        "[]" "[32]"]
      C7_upsert_counts [OF nf, of empty_Dict "sha1_Sum [32]" 3 spec_rollsum "[32, 1]"
        "[boot_row]" "[32]"]
    by (simp add: e b c closed_32_1)
qed

section \<open>The comparison in binary64\<close>

text \<open>
  For a count below \<open>2^53\<close> and a length below \<open>2^52\<close> both conversions are exact and
  the rounded quotient is above the rounded \<open>0.1\<close> exactly when the true quotient is above
  one tenth (lemma \<open>ratio_exceeds_iff\<close>).
\<close>

lemma powi2_less_iff: "(2::rat) powi a < 2 powi b \<longleftrightarrow> a < b"
proof
  assume "(2::rat) powi a < 2 powi b"
  show "a < b"
  proof (rule ccontr)
    assume "\<not> a < b"
    then have "b \<le> a" by simp
    then have "(2::rat) powi b \<le> 2 powi a" by (intro power_int_increasing) simp_all
    with \<open>(2::rat) powi a < 2 powi b\<close> show False by simp
  qed
next
  assume "a < b"
  then show "(2::rat) powi a < 2 powi b" by (intro power_int_strict_increasing) simp_all
qed

lemma powi2_le_iff: "(2::rat) powi a \<le> 2 powi b \<longleftrightarrow> a \<le> b"
  using powi2_less_iff [of b a] by (auto simp: not_less [symmetric])

lemma of_int_bitlen_bounds:
  assumes "0 < p"
  shows "(2::rat) powi (bitlen p - 1) \<le> of_int p" and "of_int p < (2::rat) powi bitlen p"
proof -
  from assms have ge: "1 \<le> bitlen p"
    by (simp add: bitlen_alt_def)
  from bitlen_bounds [OF assms] have a: "2 ^ nat (bitlen p - 1) \<le> p" and b: "p < 2 ^ nat (bitlen p)"
    by simp_all
  from a have "(of_int (2 ^ nat (bitlen p - 1)) :: rat) \<le> of_int p"
    by (simp only: of_int_le_iff)
  then show "(2::rat) powi (bitlen p - 1) \<le> of_int p"
    using ge by (simp add: power_int_nonneg_exp)
  from b have "(of_int p :: rat) < of_int (2 ^ nat (bitlen p))"
    by (simp only: of_int_less_iff)
  then show "of_int p < (2::rat) powi bitlen p"
    using ge by (simp add: power_int_nonneg_exp)
qed

lemma binade_bounds:
  assumes "0 < x"
  shows "2 powi binade x \<le> x" and "x < 2 powi (binade x + 1)"
proof -
  obtain p q where pq: "quotient_of x = (p, q)"
    by (cases "quotient_of x")
  then have q: "0 < q" and x: "x = of_int p / of_int q"
    by (simp_all add: quotient_of_denom_pos quotient_of_div)
  with assms have p: "0 < p"
    by (simp add: zero_less_divide_iff)
  define d where "d = bitlen p - bitlen q"
  note P = of_int_bitlen_bounds [OF p] and Q = of_int_bitlen_bounds [OF q]
  have "(2::rat) powi (d - 1) = 2 powi (bitlen p - 1) / 2 powi bitlen q"
    by (simp add: d_def power_int_diff [symmetric] algebra_simps)
  also have "\<dots> < of_int p / of_int q"
    using P(1) Q(2) q by (intro frac_less2) simp_all
  finally have lo: "(2::rat) powi (d - 1) < x"
    by (simp add: x)
  have "x = of_int p / of_int q" by (rule x)
  also have "\<dots> < 2 powi bitlen p / 2 powi (bitlen q - 1)"
    using P(2) Q(1) p by (intro frac_less) simp_all
  also have "\<dots> = (2::rat) powi (d + 1)"
    by (simp add: d_def power_int_diff [symmetric] algebra_simps)
  finally have hi: "x < (2::rat) powi (d + 1)" .
  have b: "binade x = (if 2 powi d \<le> x then d else d - 1)"
    by (simp add: binade_def pq d_def Let_def)
  show "2 powi binade x \<le> x"
    using lo by (simp add: b)
  show "x < 2 powi (binade x + 1)"
    using hi by (simp add: b not_le)
qed

lemma binade_unique:
  assumes "2 powi e \<le> x" "x < 2 powi (e + 1)"
  shows "binade x = e"
proof -
  have "0 < x"
    using assms(1) by (rule less_le_trans [rotated]) simp
  note B = binade_bounds [OF this]
  from B(1) assms(2) have "(2::rat) powi binade x < 2 powi (e + 1)" by simp
  then have "binade x < e + 1" by (simp only: powi2_less_iff)
  moreover from assms(1) B(2) have "(2::rat) powi e < 2 powi (binade x + 1)" by simp
  then have "e < binade x + 1" by (simp only: powi2_less_iff)
  ultimately show ?thesis by simp
qed

lemma round_half_even_of_int: "round_half_even (of_int z) = z"
  by (simp add: round_half_even_def)

lemma round_half_even_bounds: "\<lfloor>x\<rfloor> \<le> round_half_even x" "round_half_even x \<le> \<lfloor>x\<rfloor> + 1"
  by (simp_all add: round_half_even_def Let_def)

lemma round_half_even_gt_even:
  assumes "even m"
  shows "m < round_half_even x \<longleftrightarrow> of_int m + 1 / 2 < x"
proof -
  define f where "f = \<lfloor>x\<rfloor>"
  have f: "of_int f \<le> x" "x < of_int f + 1"
    using floor_correct [of x] by (simp_all add: f_def)
  consider "f < m" | "f = m" | "m < f" by linarith
  then show ?thesis
  proof cases
    case 1
    then have "f + 1 \<le> m" by simp
    then have "(of_int (f + 1) :: rat) \<le> of_int m" by (simp only: of_int_le_iff)
    with f(2) have "x < of_int m + 1 / 2" by simp
    moreover have "round_half_even x \<le> m"
      using round_half_even_bounds(2) [of x] 1 by (simp add: f_def)
    ultimately show ?thesis by simp
  next
    case 2
    then show ?thesis
      using assms f by (auto simp: round_half_even_def Let_def f_def [symmetric])
  next
    case 3
    then have "m + 1 \<le> f" by simp
    then have "(of_int (m + 1) :: rat) \<le> of_int f" by (simp only: of_int_le_iff)
    with f(1) have "of_int m + 1 / 2 < x" by simp
    moreover have "m < round_half_even x"
      using round_half_even_bounds(1) [of x] 3 by (simp add: f_def)
    ultimately show ?thesis by simp
  qed
qed


lemma fl64_of_int:
  assumes "0 \<le> k" "k < 2 ^ 53"
  shows "fl64 (of_int k) = of_int k"
proof (cases "k = 0")
  case True
  then show ?thesis by (simp add: fl64_def)
next
  case False
  with assms have pos: "0 < (of_int k :: rat)" by simp
  define e where "e = binade (of_int k)"
  have "(of_int k :: rat) < of_int (2 ^ 53)"
    using assms(2) by (simp only: of_int_less_iff)
  then have "(of_int k :: rat) < 2 powi 53" by simp
  with binade_bounds(1) [OF pos] have "(2::rat) powi e < 2 powi 53"
    by (simp add: e_def)
  then have e: "e < 53" by (simp only: powi2_less_iff)
  have "(of_int k :: rat) / 2 powi (e - 52) = of_int k * 2 powi (52 - e)"
    by (simp add: power_int_diff)
  also have "\<dots> = of_int (k * 2 ^ nat (52 - e))"
    using e by (simp add: power_int_nonneg_exp)
  finally have y: "(of_int k :: rat) / 2 powi (e - 52) = of_int (k * 2 ^ nat (52 - e))" .
  have "fl64 (of_int k) = of_int (k * 2 ^ nat (52 - e)) * 2 powi (e - 52)"
    using pos by (simp add: fl64_def Let_def e_def [symmetric] y round_half_even_of_int
        del: of_int_mult of_int_power)
  also have "\<dots> = (of_int k / 2 powi (e - 52)) * 2 powi (e - 52)"
    by (simp only: y)
  also have "\<dots> = of_int k" by simp
  finally show ?thesis .
qed

lemma fl64_tenth: "fl64 (1 / 10) = 7205759403792794 / 2 ^ 56"
  by code_simp

lemma fl64_scaled:
  assumes "0 < x"
  shows "(2::rat) ^ 52 \<le> x / 2 powi (binade x - 52)" and "x / 2 powi (binade x - 52) < 2 ^ 53"
proof -
  have u: "(0::rat) < 2 powi (binade x - 52)" by simp
  have "(2::rat) ^ 52 * 2 powi (binade x - 52) = 2 powi binade x"
    using power_int_add [of "2::rat" 52 "binade x - 52"] by simp
  with binade_bounds(1) [OF assms] show "(2::rat) ^ 52 \<le> x / 2 powi (binade x - 52)"
    using u by (simp add: pos_le_divide_eq)
  have "(2::rat) ^ 53 * 2 powi (binade x - 52) = 2 powi (binade x + 1)"
    using power_int_add [of "2::rat" 53 "binade x - 52"] by (simp add: ac_simps)
  with binade_bounds(2) [OF assms] show "x / 2 powi (binade x - 52) < 2 ^ 53"
    using u by (simp add: pos_divide_less_eq)
qed

lemma fl64_ge:
  assumes "0 < x"
  shows "2 powi binade x \<le> fl64 x"
proof -
  define y where "y = x / 2 powi (binade x - 52)"
  have "(of_int (2 ^ 52) :: rat) \<le> y"
    using fl64_scaled(1) [OF assms] by (simp add: y_def)
  then have "2 ^ 52 \<le> \<lfloor>y\<rfloor>" by (simp only: le_floor_iff)
  with round_half_even_bounds(1) [of y] have "2 ^ 52 \<le> round_half_even y" by linarith
  then have "(of_int (2 ^ 52) :: rat) \<le> of_int (round_half_even y)"
    by (simp only: of_int_le_iff)
  then have a: "(2::rat) ^ 52 * 2 powi (binade x - 52) \<le>
      of_int (round_half_even y) * 2 powi (binade x - 52)"
    by (intro mult_right_mono) simp_all
  have "(2::rat) powi binade x = 2 ^ 52 * 2 powi (binade x - 52)"
    using power_int_add [of "2::rat" 52 "binade x - 52"] by simp
  also note a
  also have "of_int (round_half_even y) * 2 powi (binade x - 52) = fl64 x"
    using assms by (simp add: fl64_def Let_def y_def)
  finally show ?thesis .
qed

lemma fl64_le:
  assumes "0 < x"
  shows "fl64 x \<le> 2 powi (binade x + 1)"
proof -
  define y where "y = x / 2 powi (binade x - 52)"
  have "y < of_int (2 ^ 53)"
    using fl64_scaled(2) [OF assms] by (simp add: y_def)
  then have "\<lfloor>y\<rfloor> < 2 ^ 53" by (simp only: floor_less_iff)
  with round_half_even_bounds(2) [of y] have "round_half_even y \<le> 2 ^ 53" by linarith
  then have "(of_int (round_half_even y) :: rat) \<le> of_int (2 ^ 53)"
    by (simp only: of_int_le_iff)
  then have a: "of_int (round_half_even y) * 2 powi (binade x - 52) \<le>
      (2::rat) ^ 53 * 2 powi (binade x - 52)"
    by (intro mult_right_mono) simp_all
  have "fl64 x = of_int (round_half_even y) * 2 powi (binade x - 52)"
    using assms by (simp add: fl64_def Let_def y_def)
  also note a
  also have "(2::rat) ^ 53 * 2 powi (binade x - 52) = 2 powi (binade x + 1)"
    using power_int_add [of "2::rat" 53 "binade x - 52"] by (simp add: ac_simps)
  finally show ?thesis .
qed

lemma fl64_high:
  assumes "1 / 8 \<le> x"
  shows "fl64 (1 / 10) < fl64 x"
proof -
  from assms have pos: "0 < x" by simp
  have "(2::rat) powi (- 3) \<le> x" using assms by (simp add: power_int_minus)
  with binade_bounds(2) [OF pos] have "(2::rat) powi (- 3) < 2 powi (binade x + 1)" by simp
  then have "- 3 < binade x + 1" by (simp only: powi2_less_iff)
  then have "(2::rat) powi (- 3) \<le> 2 powi binade x" by (simp only: powi2_le_iff)
  with fl64_ge [OF pos] have "1 / 8 \<le> fl64 x" by (simp add: power_int_minus)
  then show ?thesis by (simp add: fl64_tenth)
qed

lemma fl64_low:
  assumes "0 < x" "x < 1 / 16"
  shows "\<not> fl64 (1 / 10) < fl64 x"
proof -
  have "x < (2::rat) powi (- 4)" using assms by (simp add: power_int_minus)
  with binade_bounds(1) [OF assms(1)] have "(2::rat) powi binade x < 2 powi (- 4)" by simp
  then have "binade x < - 4" by (simp only: powi2_less_iff)
  then have "(2::rat) powi (binade x + 1) \<le> 2 powi (- 4)" by (simp only: powi2_le_iff)
  with fl64_le [OF assms(1)] have "fl64 x \<le> 1 / 16" by (simp add: power_int_minus)
  then show ?thesis by (simp add: fl64_tenth)
qed

lemma fl64_mid:
  assumes "1 / 16 \<le> x" "x < 1 / 8"
  shows "fl64 (1 / 10) < fl64 x \<longleftrightarrow> 14411518807585589 < x * 2 ^ 57"
proof -
  from assms have pos: "0 < x" by simp
  define m :: int where "m = 7205759403792794"
  define R where "R = round_half_even (x * 2 ^ 56)"
  have "binade x = - 4"
    using assms by (intro binade_unique) (simp_all add: power_int_minus)
  then have fx: "fl64 x = of_int R / 2 ^ 56"
    using pos by (simp add: fl64_def Let_def power_int_minus R_def)
  have c: "fl64 (1 / 10) = of_int m / 2 ^ 56"
    by (simp add: fl64_tenth m_def)
  have "fl64 (1 / 10) < fl64 x \<longleftrightarrow> (of_int m :: rat) / 2 ^ 56 < of_int R / 2 ^ 56"
    by (simp only: fx c)
  also have "\<dots> \<longleftrightarrow> m < R"
    by (simp add: divide_less_cancel)
  also have "\<dots> \<longleftrightarrow> of_int m + 1 / 2 < x * 2 ^ 56"
    unfolding R_def by (rule round_half_even_gt_even) (simp add: m_def)
  also have "\<dots> \<longleftrightarrow> 14411518807585589 < x * 2 ^ 57"
    by (simp add: m_def) linarith
  finally show ?thesis .
qed

lemma ratio_exceeds_iff:
  assumes "0 \<le> u" "u < 2 ^ 53" "0 < n" "n < 2 ^ 52"
  shows "ratio_exceeds u n \<longleftrightarrow> n < 10 * u"
proof -
  define x :: rat where "x = of_int u / of_int n"
  have n: "(0::rat) < of_int n" using assms(3) by simp
  have r: "ratio_exceeds u n \<longleftrightarrow> fl64 (1 / 10) < fl64 x"
    using assms by (simp add: ratio_exceeds_def fl64_of_int x_def)
  have le: "of_int a / of_int n \<le> x \<longleftrightarrow> a \<le> u" for a
    using n by (simp add: x_def divide_le_cancel)
  consider "u = 0" | "0 < u" "n \<le> 8 * u" | "0 < u" "16 * u < n" | "8 * u < n" "n \<le> 16 * u"
    using assms(1) by linarith
  then show ?thesis
  proof cases
    case 1
    then have "x = 0" by (simp add: x_def)
    then have "fl64 x = 0" by (simp add: fl64_def)
    then have "\<not> fl64 (1 / 10) < fl64 x" by (simp add: fl64_tenth)
    then have "\<not> ratio_exceeds u n" using r by blast
    with 1 assms(3) show ?thesis by simp
  next
    case 2
    then have "(of_int n :: rat) \<le> of_int (8 * u)" by (simp only: of_int_le_iff)
    then have "1 / 8 \<le> x" using n by (simp add: x_def pos_le_divide_eq)
    then have "fl64 (1 / 10) < fl64 x" by (rule fl64_high)
    with 2 show ?thesis by (simp add: r)
  next
    case 3
    then have "(of_int (16 * u) :: rat) < of_int n" by (simp only: of_int_less_iff)
    then have "x < 1 / 16" using n by (simp add: x_def pos_divide_less_eq)
    moreover have "0 < x" using 3 n by (simp add: x_def)
    ultimately have "\<not> fl64 (1 / 10) < fl64 x" by (rule fl64_low [rotated])
    with 3 show ?thesis by (simp add: r)
  next
    case 4
    from 4(1) have "(of_int (8 * u) :: rat) < of_int n" by (simp only: of_int_less_iff)
    then have a: "x < 1 / 8" using n by (simp add: x_def pos_divide_less_eq)
    from 4(2) have "(of_int n :: rat) \<le> of_int (16 * u)" by (simp only: of_int_le_iff)
    then have b: "1 / 16 \<le> x" using n by (simp add: x_def pos_le_divide_eq)
    have "fl64 (1 / 10) < fl64 x \<longleftrightarrow> 14411518807585589 < x * 2 ^ 57"
      using b a by (rule fl64_mid)
    also have "\<dots> \<longleftrightarrow> (of_int (14411518807585589 * n) :: rat) < of_int (u * 2 ^ 57)"
      using n by (simp add: x_def pos_less_divide_eq)
    also have "\<dots> \<longleftrightarrow> 14411518807585589 * n < u * 2 ^ 57"
      by (simp only: of_int_less_iff)
    also have "\<dots> \<longleftrightarrow> n < 10 * u"
      using assms(4) 4 by simp linarith
    finally show ?thesis by (simp add: r)
  qed
qed


section \<open>The threshold (C4)\<close>

lemma scan_bounds: "u \<le> scan l u b xs \<and> scan l u b xs \<le> u + int (length xs)"
proof (induction xs arbitrary: l u b)
  case Nil
  then show ?case by simp
next
  case (Cons x xs)
  show ?case
    using Cons.IH [where l = l and u = u and b = True]
      Cons.IH [where l = x and u = "u + 1" and b = b] Cons.IH [where l = x and u = u and b = b]
    by auto
qed

lemma uniqueCount_bounds:
  "0 \<le> uniqueCount d \<and>
   uniqueCount d \<le> int (length (sdchDictChunks d)) + int (length (popularChunks (chunks d)))"
proof (cases "all_sorted (sdchDictChunks d) (map fst (popularChunks (chunks d)))")
  case Nil
  then show ?thesis by (simp add: uniqueCount_def)
next
  case (Cons l rest)
  have "length (all_sorted (sdchDictChunks d) (map fst (popularChunks (chunks d)))) =
      length (sdchDictChunks d) + length (popularChunks (chunks d))"
    by (simp add: all_sorted_eq)
  with Cons have "int (length rest) \<le>
      int (length (sdchDictChunks d)) + int (length (popularChunks (chunks d)))"
    by simp
  with scan_bounds [where u = 0 and l = l and b = False and xs = rest] show ?thesis
    by (simp add: uniqueCount_def Cons)
qed

lemma needToUpdate_decides:
  assumes "query_err env = None" "rows_err env = None" "sdchDictChunks d \<noteq> []"
  shows "needToUpdate env d =
     ((concat (map snd (popularChunks (chunks d))), map fst (popularChunks (chunks d)),
       ratio_exceeds (uniqueCount d) (int (length (sdchDictChunks d)))), d)"
proof -
  from assms(3) have "all_sorted (sdchDictChunks d) (map fst (popularChunks (chunks d))) \<noteq> []"
    by (rule all_sorted_not_Nil)
  then show ?thesis
    using assms by (simp add: needToUpdate_def Let_def uniqueCount_def split: list.splits)
qed

lemma ratio_exceeds_uniqueCount:
  assumes "sdchDictChunks d \<noteq> []" "length (sdchDictChunks d) < 2 ^ 52"
    "length (popularChunks (chunks d)) < 2 ^ 52"
  shows "ratio_exceeds (uniqueCount d) (int (length (sdchDictChunks d))) \<longleftrightarrow>
     1 / 10 < (of_int (uniqueCount d) :: rat) / of_nat (length (sdchDictChunks d))"
proof -
  define n where "n = int (length (sdchDictChunks d))"
  define u where "u = uniqueCount d"
  have n: "0 < n" "n < 2 ^ 52"
    using assms(1,2) by (simp_all add: n_def)
  have "int (length (popularChunks (chunks d))) < 2 ^ 52"
    using assms(3) by simp
  with uniqueCount_bounds [of d] n have u: "0 \<le> u" "u < 2 ^ 53"
    by (simp_all add: u_def n_def)
  have "ratio_exceeds u n \<longleftrightarrow> n < 10 * u"
    using u n by (rule ratio_exceeds_iff)
  also have "\<dots> \<longleftrightarrow> (of_int n :: rat) < of_int (10 * u)"
    by (simp only: of_int_less_iff)
  also have "\<dots> \<longleftrightarrow> 1 / 10 < (of_int u :: rat) / of_int n"
    using n(1) by (simp add: pos_less_divide_eq mult.commute)
  finally show ?thesis
    by (simp add: u_def n_def)
qed

text \<open>
  C4. In a state with a non-empty active list, when the query and the write succeed, the
  rebuild fires exactly when \<open>uniq\<close> divided by the length of the active list is above
  one tenth, and not at one tenth. When it fires the file \<^verbatim>\<open>dictraw\<close> receives the
  contents of the candidates in the order of the query and the candidate hashes become the
  active list; otherwise the state is as before. The two lists are taken shorter than
  \<open>2^52\<close>, as every slice in memory is; there the binary64 comparison of the source is
  the exact one.
\<close>

theorem C4_rebuild_threshold:
  "query_err env = None \<Longrightarrow> rows_err env = None \<Longrightarrow> write_err env = None \<Longrightarrow>
   sdchDictChunks d \<noteq> [] \<Longrightarrow> length (sdchDictChunks d) < 2 ^ 52 \<Longrightarrow>
   length (popularChunks (chunks d)) < 2 ^ 52 \<Longrightarrow>
   snd (snd (fst (needToUpdate env d))) =
     (1 / 10 < (of_int (uniqueCount d) :: rat) / of_nat (length (sdchDictChunks d))) \<and>
   makeDict env d =
     (if 1 / 10 < (of_int (uniqueCount d) :: rat) / of_nat (length (sdchDictChunks d))
      then (None, d\<lparr>sdchDictChunks := map fst (popularChunks (chunks d)),
                     dictraw := Some (concat (map snd (popularChunks (chunks d))))\<rparr>)
      else (None, d))"
proof -
  assume env: "query_err env = None" "rows_err env = None" and w: "write_err env = None"
    and d: "sdchDictChunks d \<noteq> []" "length (sdchDictChunks d) < 2 ^ 52"
      "length (popularChunks (chunks d)) < 2 ^ 52"
  have decides: "needToUpdate env d =
      ((concat (map snd (popularChunks (chunks d))), map fst (popularChunks (chunks d)),
        ratio_exceeds (uniqueCount d) (int (length (sdchDictChunks d)))), d)"
    using env d(1) by (rule needToUpdate_decides)
  have exact: "ratio_exceeds (uniqueCount d) (int (length (sdchDictChunks d))) \<longleftrightarrow>
      1 / 10 < (of_int (uniqueCount d) :: rat) / of_nat (length (sdchDictChunks d))"
    using d by (rule ratio_exceeds_uniqueCount)
  show ?thesis
    by (simp add: makeDict_def decides exact w)
qed

lemma uniqueCount_adopted: "uniqueCount adopted_Dict = 1"
  by (simp add: uniqueCount_def adopted_Dict_def boot_Dict_def popularChunks_boot all_sorted_eq
      sha1_Sum_not_Nil sha1_Sum_not_Nil [symmetric])

lemma uniqueCount_tenth: "uniqueCount tenth_Dict = 1"
proof -
  have "all_sorted (replicate 10 (sha1_Sum [32])) [sha1_Sum [32]] =
      [] # replicate 10 (sha1_Sum [32])"
    using sort_Nil_front [of "replicate 10 (sha1_Sum [32])" 1]
    by (simp add: all_sorted_eq sorted_sort_id)
  then show ?thesis
    by (simp add: uniqueCount_def tenth_Dict_def boot_Dict_def popularChunks_boot
        sha1_Sum_not_Nil sha1_Sum_not_Nil [symmetric] numeral_eq_Suc scan_isDup)
qed

theorem C4_rebuild_threshold_witness:
  "makeDict no_faults adopted_Dict = (None, adopted_Dict\<lparr>dictraw := Some [32]\<rparr>) \<and>
   (of_int (uniqueCount tenth_Dict) :: rat) / of_nat (length (sdchDictChunks tenth_Dict)) = 1 / 10 \<and>
   makeDict no_faults tenth_Dict = (None, tenth_Dict)"
proof -
  have a: "sdchDictChunks adopted_Dict = [sha1_Sum [32]]" "chunks adopted_Dict = [boot_row]"
    by (simp_all add: adopted_Dict_def boot_Dict_def)
  have t: "sdchDictChunks tenth_Dict = replicate 10 (sha1_Sum [32])" "chunks tenth_Dict = [boot_row]"
    by (simp_all add: tenth_Dict_def boot_Dict_def)
  have "adopted_Dict\<lparr>sdchDictChunks := [sha1_Sum [32]], dictraw := Some [32]\<rparr> =
      adopted_Dict\<lparr>dictraw := Some [32]\<rparr>"
    by (simp add: adopted_Dict_def)
  then show ?thesis
    using C4_rebuild_threshold [of no_faults adopted_Dict] C4_rebuild_threshold [of no_faults tenth_Dict]
    by (simp add: no_faults_def a t uniqueCount_adopted uniqueCount_tenth popularChunks_boot)
qed


end
